theory Spec2Isabelle
  imports Main
begin

section \<open>Data model of \<^verbatim>\<open>object2.py\<close>\<close>

text \<open>
  A timestamp (\<^verbatim>\<open>datetime.datetime\<close>) is the number of microseconds since the epoch, a
  \<^verbatim>\<open>datetime.timedelta\<close> a number of microseconds; both are unbounded integers here.
  The shared table \<^verbatim>\<open>images = manager.dict()\<close> is a map from timestamps to images. The pixel
  data is left abstract (the type variable \<open>'img\<close>).
\<close>

type_synonym tstamp = int
type_synonym timedelta = int
type_synonym 'img store = "tstamp \<rightharpoonup> 'img"

text \<open>The colour of a classifier (\<^verbatim>\<open>util.cascade.colors[classi]\<close>), a BGR triple.\<close>

type_synonym color = "nat \<times> nat \<times> nat"

text \<open>The tuple \<^verbatim>\<open>(a, b, c, d, self._color)\<close> that the Detector appends to its result.\<close>

type_synonym drect = "int \<times> int \<times> int \<times> int \<times> color"

text \<open>
  The exceptions the stage bodies can meet: a missing key of the table, a failed tuple
  unpacking, and a failure inside one of the collaborators (OpenCV, the classifier).
\<close>

datatype exn = KeyError | ValueError | TypeError | CollaboratorError

text \<open>
  A task is either a timestamp alone or the pair \<^verbatim>\<open>(task, results)\<close> of a timestamp and a list
  of partial results. Python unpacks the pair in the parameter list
  (\<^verbatim>\<open>def doTask(self, (tstamp, results,))\<close>), which raises \<^verbatim>\<open>TypeError\<close> on a bare timestamp.
\<close>

datatype 'r task = Token tstamp | Composite tstamp "'r list"

text \<open>
  What a task function does besides returning: the lines it prints, and either the exception
  that leaves it or the value it returns.
\<close>

type_synonym 'a outcome = "string list \<times> (exn + 'a)"

text \<open>
  The collaborators of the stage bodies, which are not part of this file: \<^verbatim>\<open>np.shape\<close>,
  \<^verbatim>\<open>cv2.rectangle\<close> (draws in place, so it maps an image to the image drawn on),
  \<^verbatim>\<open>util.writeOSD\<close> (likewise; it receives the two leading dimensions, the frame rate text is
  part of the abstract function) and \<^verbatim>\<open>cv2.imshow\<close> followed by \<^verbatim>\<open>cv2.waitKey\<close>, which may raise.
\<close>

record 'img cv =
  np_shape :: "'img \<Rightarrow> nat list"
  cv2_rectangle :: "'img \<Rightarrow> drect \<Rightarrow> 'img"
  writeOSD :: "'img \<Rightarrow> nat list \<Rightarrow> 'img"
  cv2_imshow :: "'img \<Rightarrow> exn option"

text \<open>
  A classifier: \<^verbatim>\<open>detectMultiScale(image, scaleFactor=1.3, minNeighbors=3, minSize, maxSize)\<close>
  returns the rows of rectangles it found, or raises.
\<close>

type_synonym 'img classifier = "'img \<Rightarrow> nat list \<Rightarrow> nat list \<Rightarrow> exn + int list list"

section \<open>The Staller\<close>

text \<open>
  \<^verbatim>\<open>Staller.doTask\<close>, given the reading \<open>now\<close> of \<^verbatim>\<open>datetime.datetime.now()\<close>. The result holds
  the argument of \<^verbatim>\<open>time.sleep\<close> (\<open>None\<close> when the call is skipped) and the value returned.
\<close>

definition floor_age :: timedelta where
  "floor_age = 2000000"

definition Staller_doTask :: "tstamp \<Rightarrow> 'r task \<Rightarrow> exn + (timedelta option \<times> tstamp)" where
  "Staller_doTask now task =
     (case task of
        Token t \<Rightarrow> Inl TypeError
      | Composite tstamp results \<Rightarrow>
          (let delta = now - tstamp;
               duration = floor_age - delta
           in Inr (if duration > 0 then Some duration else None, tstamp)))"

text \<open>
  The time at which a task is released: the reading \<open>now\<close>, plus the time slept when the
  Staller sleeps.
\<close>

definition release_time :: "tstamp \<Rightarrow> timedelta option \<Rightarrow> tstamp" where
  "release_time now slept = (case slept of None \<Rightarrow> now | Some d \<Rightarrow> now + d)"

section \<open>The Detector\<close>

text \<open>
  The loop \<^verbatim>\<open>for a,b,c,d in rects: result.append((a,b,c,d, self._color))\<close>. A row that does not
  have four entries makes the unpacking raise \<^verbatim>\<open>ValueError\<close>; the rows appended before it
  stay in \<open>result\<close>.
\<close>

fun append_rects :: "color \<Rightarrow> int list list \<Rightarrow> drect list \<Rightarrow> drect list \<times> exn option" where
  "append_rects col [] result = (result, None)"
| "append_rects col (row # rows) result =
     (case row of
        [a, b, c, d] \<Rightarrow> append_rects col rows (result @ [(a, b, c, d, col)])
      | _ \<Rightarrow> (result, Some ValueError))"

text \<open>
  The body of the \<^verbatim>\<open>try\<close> block of \<^verbatim>\<open>Detector.doTask\<close>: the list \<open>result\<close> as the block leaves
  it, and the exception that ended the block, if any. Python 2 divides the integer
  dimensions with \<^verbatim>\<open>/\<close>, rounding down.
\<close>

definition Detector_try ::
  "('img \<Rightarrow> nat list) \<Rightarrow> 'img store \<Rightarrow> 'img classifier \<Rightarrow> color \<Rightarrow> tstamp \<Rightarrow> drect list
     \<Rightarrow> drect list \<times> exn option" where
  "Detector_try shape images classifier col tstamp result =
     (case images tstamp of
        None \<Rightarrow> (result, Some KeyError)
      | Some img \<Rightarrow>
          (let sz = take 2 (shape img) in
           case classifier img (map (\<lambda>x. x div 20) sz) (map (\<lambda>x. x div 2) sz) of
             Inl e \<Rightarrow> (result, Some e)
           | Inr rects \<Rightarrow>
               if length rects \<noteq> 0 then append_rects col rects result else (result, None)))"

text \<open>\<^verbatim>\<open>Detector.doTask\<close>: the bare \<^verbatim>\<open>except\<close> prints one line and the function returns \<open>result\<close>.\<close>

definition Detector_doTask ::
  "('img \<Rightarrow> nat list) \<Rightarrow> 'img store \<Rightarrow> 'img classifier \<Rightarrow> color \<Rightarrow> tstamp \<Rightarrow> drect list outcome" where
  "Detector_doTask shape images classifier col tstamp =
     (case Detector_try shape images classifier col tstamp [] of
        (result, None) \<Rightarrow> ([], Inr result)
      | (result, Some e) \<Rightarrow> ([''Error in detector !!!''], Inr result))"

section \<open>The Postprocessor\<close>

text \<open>
  The loop that draws the rectangles. Every iteration evaluates \<^verbatim>\<open>images[tstamp]\<close> again, and
  \<^verbatim>\<open>cv2.rectangle\<close> draws on the shared memory the entry refers to.
\<close>

fun draw_rects :: "'img cv \<Rightarrow> 'img store \<Rightarrow> tstamp \<Rightarrow> drect list \<Rightarrow> exn + 'img store" where
  "draw_rects cv images tstamp [] = Inr images"
| "draw_rects cv images tstamp (r # rs) =
     (case images tstamp of
        None \<Rightarrow> Inl KeyError
      | Some img \<Rightarrow> draw_rects cv (images(tstamp \<mapsto> cv2_rectangle cv img r)) tstamp rs)"

text \<open>
  \<^verbatim>\<open>Postprocessor.doTask\<close>: flatten the list of lists, draw, read the size, write the text,
  return the timestamp. Nothing in it catches an exception. The result holds the table after
  the drawing.
\<close>

definition Postprocessor_doTask ::
  "'img cv \<Rightarrow> 'img store \<Rightarrow> drect list task \<Rightarrow> exn + (tstamp \<times> 'img store)" where
  "Postprocessor_doTask cv images task =
     (case task of
        Token t \<Rightarrow> Inl TypeError
      | Composite tstamp rects \<Rightarrow>
          (case draw_rects cv images tstamp (concat rects) of
             Inl e \<Rightarrow> Inl e
           | Inr images1 \<Rightarrow>
               (case images1 tstamp of
                  None \<Rightarrow> Inl KeyError
                | Some img \<Rightarrow>
                    (let sz = take 2 (np_shape cv img) in
                     case images1 tstamp of
                       None \<Rightarrow> Inl KeyError
                     | Some img2 \<Rightarrow>
                         Inr (tstamp, images1(tstamp \<mapsto> writeOSD cv img2 sz))))))"

section \<open>The Viewer\<close>

text \<open>\<^verbatim>\<open>Viewer.doTask\<close>: lookup and display inside \<^verbatim>\<open>try\<close>, one printed line on any exception.\<close>

definition Viewer_doTask :: "'img cv \<Rightarrow> 'img store \<Rightarrow> tstamp \<Rightarrow> tstamp outcome" where
  "Viewer_doTask cv images tstamp =
     (case images tstamp of
        None \<Rightarrow> ([''Error in viewer !!!''], Inr tstamp)
      | Some img \<Rightarrow>
          (case cv2_imshow cv img of
             Some e \<Rightarrow> ([''Error in viewer !!!''], Inr tstamp)
           | None \<Rightarrow> ([], Inr tstamp)))"

section \<open>The capture loop and the main process\<close>

text \<open>
  What the main process does, in program order: an assignment \<^verbatim>\<open>images[now] = image_in\<close>, a
  \<^verbatim>\<open>put\<close> on one of the two pipelines (\<open>None\<close> is the stop task), and the final loop over
  \<^verbatim>\<open>pipe_dealloc.results()\<close>.
\<close>

datatype 'img action =
  Table_set tstamp 'img
| Iproc_put "tstamp option"
| Dealloc_put "bool option"
| Dealloc_wait

text \<open>
  The capture loop \<^verbatim>\<open>while end > now\<close>. Each iteration takes the next reading of the clock and
  the next frame of the camera from \<open>feed\<close>; the loop is \<open>None\<close> when \<open>feed\<close> runs out while
  the loop is still going (the input given is too short to see the loop end).
\<close>

fun capture_loop :: "tstamp \<Rightarrow> tstamp \<Rightarrow> (tstamp \<times> 'img) list \<Rightarrow> 'img action list option" where
  "capture_loop endt now [] = (if endt > now then None else Some [])"
| "capture_loop endt now ((t, img) # feed) =
     (if endt > now
      then map_option (\<lambda>as. Table_set t img # Iproc_put (Some t) # as) (capture_loop endt t feed)
      else Some [])"

text \<open>
  The main process from the start of the Deallocator (line 138) to the end: \<open>r0\<close> is the
  reading of line 148, \<open>duration\<close> the configured \<^verbatim>\<open>DURATION\<close> in microseconds.
\<close>

definition main :: "timedelta \<Rightarrow> tstamp \<Rightarrow> (tstamp \<times> 'img) list \<Rightarrow> 'img action list option" where
  "main duration r0 feed =
     map_option (\<lambda>as. Dealloc_put (Some True) # as @ [Iproc_put None, Dealloc_put None, Dealloc_wait])
       (capture_loop (r0 + duration) r0 feed)"

text \<open>The table after a sequence of actions.\<close>

fun table_of :: "'img action list \<Rightarrow> 'img store \<Rightarrow> 'img store" where
  "table_of [] images = images"
| "table_of (Table_set t img # as) images = table_of as (images(t \<mapsto> img))"
| "table_of (a # as) images = table_of as images"

section \<open>Keys of the table\<close>

text \<open>The keys assigned by a sequence of actions, in order.\<close>

fun table_keys :: "'img action list \<Rightarrow> tstamp list" where
  "table_keys [] = []"
| "table_keys (Table_set t img # as) = t # table_keys as"
| "table_keys (a # as) = table_keys as"

text \<open>Whether one of the assignments of a sequence of actions hits a key that is present.\<close>

fun overwrites :: "'img action list \<Rightarrow> 'img store \<Rightarrow> bool" where
  "overwrites [] images = False"
| "overwrites (Table_set t img # as) images = (images t \<noteq> None \<or> overwrites as (images(t \<mapsto> img)))"
| "overwrites (a # as) images = overwrites as images"

section \<open>The pipelines\<close>

text \<open>
  Modelled from the spec: the classes \<^verbatim>\<open>mpipe.Stage\<close>, \<^verbatim>\<open>mpipe.FilterStage\<close> and \<^verbatim>\<open>mpipe.Pipeline\<close>
  are imported, not defined in this file. Section 4.3 of the specification: a FilterStage
  hands every task to all its branches and, once every branch has produced its partial
  result, forwards the task paired with the list of these results. An exception that leaves
  a branch is kept as the outcome.
\<close>

fun sequence_sum :: "(exn + 'a) list \<Rightarrow> exn + 'a list" where
  "sequence_sum [] = Inr []"
| "sequence_sum (x # xs) =
     (case x of
        Inl e \<Rightarrow> Inl e
      | Inr r \<Rightarrow> (case sequence_sum xs of Inl e \<Rightarrow> Inl e | Inr rs \<Rightarrow> Inr (r # rs)))"

definition filter_merge :: "tstamp \<Rightarrow> (exn + 'r) list \<Rightarrow> exn + 'r task" where
  "filter_merge t partials =
     (case sequence_sum partials of Inl e \<Rightarrow> Inl e | Inr rs \<Rightarrow> Inr (Composite t rs))"

text \<open>
  Modelled from the spec: the chain \<^verbatim>\<open>filter_detector --> postproc --> filter_viewer --> staller\<close>
  of lines 116 to 129, for one timestamp: one Detector per classifier behind the first
  filter, the Postprocessor, the Viewer behind the second filter, the Staller (which reads
  the clock as \<open>rd\<close>). The task functions are the ones above; the specification's sections 4.2
  to 4.4 give the plumbing (each stage hands its result to the next). The result is what the
  Staller returns, with the table as the Postprocessor leaves it.
\<close>

definition pipe_iproc_task ::
  "'img cv \<Rightarrow> ('img classifier \<times> color) list \<Rightarrow> tstamp \<Rightarrow> 'img store \<Rightarrow> tstamp
     \<Rightarrow> exn + (tstamp \<times> 'img store)" where
  "pipe_iproc_task cv dets rd images t =
     (case filter_merge t
             (map (\<lambda>(classifier, col). snd (Detector_doTask (np_shape cv) images classifier col t)) dets) of
        Inl e \<Rightarrow> Inl e
      | Inr task1 \<Rightarrow>
          (case Postprocessor_doTask cv images task1 of
             Inl e \<Rightarrow> Inl e
           | Inr (t1, images1) \<Rightarrow>
               (case filter_merge t1 [snd (Viewer_doTask cv images1 t1)] of
                  Inl e \<Rightarrow> Inl e
                | Inr task2 \<Rightarrow>
                    (case Staller_doTask rd task2 of
                       Inl e \<Rightarrow> Inl e
                     | Inr (slept, t2) \<Rightarrow> Inr (t2, images1)))))"

section \<open>The program as three processes\<close>


fun tokens_of :: "'a option list \<Rightarrow> 'a list" where
  "tokens_of [] = []"
| "tokens_of (Some x # xs) = x # tokens_of xs"
| "tokens_of (None # xs) = tokens_of xs"

text \<open>
  A worker process waits for a task, is inside its task function, has stopped after the stop
  task, or has been ended by an exception that left its task function.
\<close>

datatype worker = Ready | Busy | Stopped | Failed exn

text \<open>
  The state of the program: the table; what the main process still has to do and what it has
  done; the input queue, the worker and the result queue of \<^verbatim>\<open>pipe_iproc\<close>; the timestamps the
  Deallocator has deleted; the input queue, the worker and the result queue of
  \<^verbatim>\<open>pipe_dealloc\<close>; the results the main process has read in its final loop.
\<close>

record 'img system =
  st_images :: "'img store"
  st_todo :: "'img action list"
  st_trace :: "'img action list"
  st_queue :: "tstamp option list"
  st_iproc :: worker
  st_results :: "tstamp option list"
  st_deleted :: "tstamp list"
  st_dealloc_queue :: "bool option list"
  st_dealloc :: worker
  st_dealloc_results :: "unit option list"
  st_seen :: "unit list"

definition start :: "'img action list \<Rightarrow> 'img system" where
  "start as = \<lparr>st_images = Map.empty, st_todo = as, st_trace = [], st_queue = [], st_iproc = Ready,
     st_results = [], st_deleted = [], st_dealloc_queue = [], st_dealloc = Ready,
     st_dealloc_results = [], st_seen = []\<rparr>"

text \<open>
  One step of the main process: the next action of its program. An assignment to the table
  replaces what is there. Modelled from the spec (section 4.4, \<^verbatim>\<open>mpipe.Pipeline\<close> is imported):
  a \<^verbatim>\<open>put\<close> appends to the queue of the pipeline, which has no bound here, and
  \<^verbatim>\<open>results()\<close> yields the results in order until the stop task. So the final loop
  \<^verbatim>\<open>for result in pipe_dealloc.results(): pass\<close> reads one result per step, ends at the stop
  task, and cannot step while the result queue is empty.
\<close>

definition main_step :: "'img system \<Rightarrow> 'img system option" where
  "main_step s =
     (case st_todo s of
        [] \<Rightarrow> None
      | Table_set t img # as \<Rightarrow>
          Some (s\<lparr>st_images := (st_images s)(t \<mapsto> img), st_todo := as,
                   st_trace := st_trace s @ [Table_set t img]\<rparr>)
      | Iproc_put x # as \<Rightarrow>
          Some (s\<lparr>st_queue := st_queue s @ [x], st_todo := as,
                   st_trace := st_trace s @ [Iproc_put x]\<rparr>)
      | Dealloc_put x # as \<Rightarrow>
          Some (s\<lparr>st_dealloc_queue := st_dealloc_queue s @ [x], st_todo := as,
                   st_trace := st_trace s @ [Dealloc_put x]\<rparr>)
      | Dealloc_wait # as \<Rightarrow>
          (case st_dealloc_results s of
             [] \<Rightarrow> None
           | Some u # rs \<Rightarrow> Some (s\<lparr>st_dealloc_results := rs, st_seen := st_seen s @ [u]\<rparr>)
           | None # rs \<Rightarrow>
               Some (s\<lparr>st_dealloc_results := rs, st_todo := as,
                        st_trace := st_trace s @ [Dealloc_wait]\<rparr>)))"

text \<open>
  Modelled from the spec: \<^verbatim>\<open>pipe_iproc\<close>, an \<^verbatim>\<open>mpipe.Pipeline\<close>, as one worker. Sections 4.2 to 4.4
  of the specification: tasks are taken from the head queue in order, each passes the chain
  of stages (\<open>pipe_iproc_task\<close> above, with the reading \<open>rd\<close> of the clock for the Staller),
  and the results leave in the same order; on the stop task the pipeline finishes what it
  has admitted, forwards the stop task to its results and stops. When a task function
  raises, the worker has failed and does nothing more: nothing in the source catches the
  exception.
\<close>

definition iproc_step ::
  "'img cv \<Rightarrow> ('img classifier \<times> color) list \<Rightarrow> tstamp \<Rightarrow> 'img system \<Rightarrow> 'img system option" where
  "iproc_step cv dets rd s =
     (case st_iproc s of
        Ready \<Rightarrow>
          (case st_queue s of
             [] \<Rightarrow> None
           | None # q \<Rightarrow>
               Some (s\<lparr>st_queue := q, st_results := st_results s @ [None], st_iproc := Stopped\<rparr>)
           | Some t # q \<Rightarrow>
               (case pipe_iproc_task cv dets rd (st_images s) t of
                  Inl e \<Rightarrow> Some (s\<lparr>st_queue := q, st_iproc := Failed e\<rparr>)
                | Inr (r, images1) \<Rightarrow>
                    Some (s\<lparr>st_queue := q, st_images := images1,
                             st_results := st_results s @ [Some r]\<rparr>)))
      | _ \<Rightarrow> None)"

text \<open>
  Modelled from the spec: the worker of \<^verbatim>\<open>pipe_dealloc\<close>, an \<^verbatim>\<open>mpipe.UnorderedStage\<close> (imported)
  with one worker. It takes a task from its queue and runs the task function, puts the value
  returned on the result queue (Python's \<^verbatim>\<open>None\<close> of a function without \<^verbatim>\<open>return\<close>, here the
  unit value), and on the stop task forwards it and stops (section 4.4). The task function
  is the \<^verbatim>\<open>deallocate\<close> of the source: it reads the results of \<^verbatim>\<open>pipe_iproc\<close> one at a time and
  deletes each from the table; it returns when the results end; \<^verbatim>\<open>del\<close> of a key that is
  absent raises \<^verbatim>\<open>KeyError\<close>, which nothing catches, so that the worker has failed.
\<close>

definition dealloc_step :: "'img system \<Rightarrow> 'img system option" where
  "dealloc_step s =
     (case st_dealloc s of
        Ready \<Rightarrow>
          (case st_dealloc_queue s of
             [] \<Rightarrow> None
           | None # q \<Rightarrow>
               Some (s\<lparr>st_dealloc_queue := q, st_dealloc_results := st_dealloc_results s @ [None],
                        st_dealloc := Stopped\<rparr>)
           | Some task # q \<Rightarrow> Some (s\<lparr>st_dealloc_queue := q, st_dealloc := Busy\<rparr>))
      | Busy \<Rightarrow>
          (case st_results s of
             [] \<Rightarrow> None
           | None # rs \<Rightarrow>
               Some (s\<lparr>st_results := rs, st_dealloc := Ready,
                        st_dealloc_results := st_dealloc_results s @ [Some ()]\<rparr>)
           | Some tstamp # rs \<Rightarrow>
               if st_images s tstamp \<noteq> None
               then Some (s\<lparr>st_results := rs, st_images := (st_images s)(tstamp := None),
                             st_deleted := st_deleted s @ [tstamp]\<rparr>)
               else Some (s\<lparr>st_results := rs, st_dealloc := Failed KeyError\<rparr>))
      | _ \<Rightarrow> None)"

text \<open>
  A step of one of the three processes (the pipeline with the reading of the clock that its
  Staller sees), and a run under a schedule. A run is \<open>None\<close> when the schedule names a
  process that cannot step.
\<close>

datatype proc = Main | Iproc tstamp | Dealloc

fun step :: "'img cv \<Rightarrow> ('img classifier \<times> color) list \<Rightarrow> proc \<Rightarrow> 'img system \<Rightarrow> 'img system option" where
  "step cv dets Main s = main_step s"
| "step cv dets (Iproc rd) s = iproc_step cv dets rd s"
| "step cv dets Dealloc s = dealloc_step s"

fun run :: "'img cv \<Rightarrow> ('img classifier \<times> color) list \<Rightarrow> proc list \<Rightarrow> 'img system \<Rightarrow> 'img system option" where
  "run cv dets [] s = Some s"
| "run cv dets (p # ps) s = (case step cv dets p s of None \<Rightarrow> None | Some s1 \<Rightarrow> run cv dets ps s1)"

section \<open>Invariants of the program\<close>



text \<open>
  Whether the Deallocator has been started, and whether the stop task has been put on
  \<^verbatim>\<open>pipe_iproc\<close> and on \<^verbatim>\<open>pipe_dealloc\<close>, read off what the main process still has to do.
\<close>

definition started :: "'img action list \<Rightarrow> bool" where
  "started todo \<longleftrightarrow> Dealloc_put (Some True) \<notin> set todo"

definition stop1 :: "'img action list \<Rightarrow> bool" where
  "stop1 todo \<longleftrightarrow> Iproc_put None \<notin> set todo"

definition stop2 :: "'img action list \<Rightarrow> bool" where
  "stop2 todo \<longleftrightarrow> Dealloc_put None \<notin> set todo"




section \<open>Ordered stages and filter stages with concurrent workers\<close>

text \<open>
  Modelled from the spec: \<^verbatim>\<open>mpipe.OrderedWorker\<close>, the base class of the four workers of this
  file, is imported, not defined here. Section 4.2 of the specification, Ordered: the pool
  may process several tasks concurrently, but results are buffered internally and released
  to the downstream target strictly in the original order of arrival; a task that finishes
  early waits until all earlier tasks have been released. The state of such a stage: the
  finished results that wait, by arrival index; the index of the next result to release;
  the results released so far.
\<close>

record 'r ordered =
  buffer :: "nat \<rightharpoonup> 'r"
  nxt :: nat
  emitted :: "'r list"

text \<open>
  Modelled from the spec: releasing. While the result with the next index is in the buffer,
  it is taken out and released; \<open>n\<close> is the number of tasks that have arrived.
\<close>

function release :: "nat \<Rightarrow> 'r ordered \<Rightarrow> 'r ordered" where
  "release n s =
     (if nxt s < n
      then (case buffer s (nxt s) of
              None \<Rightarrow> s
            | Some r \<Rightarrow>
                release n (s\<lparr>buffer := (buffer s)(nxt s := None), nxt := Suc (nxt s),
                            emitted := emitted s @ [r]\<rparr>))
      else s)"
  by pat_completeness auto
termination
  by (relation "measure (\<lambda>(n, s). n - nxt s)") auto

declare release.simps [simp del]

text \<open>
  Modelled from the spec: a worker finishes the task with arrival index \<open>i\<close> with the result
  \<open>r\<close>: the result enters the buffer, and what can be released is released.
\<close>

definition complete :: "nat \<Rightarrow> nat \<Rightarrow> 'r \<Rightarrow> 'r ordered \<Rightarrow> 'r ordered" where
  "complete n i r s = (if i < n then release n (s\<lparr>buffer := (buffer s)(i \<mapsto> r)\<rparr>) else s)"

definition ordered_init :: "'r ordered" where
  "ordered_init = \<lparr>buffer = Map.empty, nxt = 0, emitted = []\<rparr>"

text \<open>
  Modelled from the spec: the run of an Ordered stage with the task function \<open>f\<close> over the
  tasks \<open>tasks\<close>, when the workers finish in the order \<open>schedule\<close> (a list of arrival
  indices). The result is what the stage has released at the end.
\<close>

definition ordered_stage :: "('a \<Rightarrow> 'r) \<Rightarrow> 'a list \<Rightarrow> nat list \<Rightarrow> 'r list" where
  "ordered_stage f tasks schedule =
     emitted (foldl (\<lambda>s i. complete (length tasks) i (f (tasks ! i)) s) ordered_init schedule)"

text \<open>
  Modelled from the spec: \<^verbatim>\<open>mpipe.FilterStage\<close> is imported, not defined in this file. Section
  4.3 of the specification: every task goes to all branches; once every branch has produced
  its partial result for a task, these are merged into one result, which is handed to an
  ordering stage as in section 4.2 and so leaves in the order of the tasks. The state: the
  partial results by task index and branch index, and the ordering stage.
\<close>

record ('a, 'r) filter_state =
  partials :: "nat \<Rightarrow> nat \<rightharpoonup> 'r"
  merged :: "('a \<times> 'r list) ordered"

text \<open>
  Modelled from the spec: branch \<open>b\<close> finishes the task with index \<open>i\<close>. When that was the
  last branch missing for the task, the merged result, the task paired with the list of the
  partial results in the order of the branches, is completed in the ordering stage.
\<close>

definition branch_done ::
  "('a \<Rightarrow> 'r) list \<Rightarrow> 'a list \<Rightarrow> nat \<times> nat \<Rightarrow> ('a, 'r) filter_state \<Rightarrow> ('a, 'r) filter_state" where
  "branch_done fs tasks ev st =
     (case ev of (b, i) \<Rightarrow>
        if b < length fs \<and> i < length tasks
        then (let row = (partials st i)(b \<mapsto> (fs ! b) (tasks ! i));
                  st1 = st\<lparr>partials := (partials st)(i := row)\<rparr>
              in case those (map row [0..<length fs]) of
                   None \<Rightarrow> st1
                 | Some rs \<Rightarrow> st1\<lparr>merged := complete (length tasks) i (tasks ! i, rs) (merged st1)\<rparr>)
        else st)"

definition filter_init :: "('a, 'r) filter_state" where
  "filter_init = \<lparr>partials = (\<lambda>i. Map.empty), merged = ordered_init\<rparr>"

text \<open>
  Modelled from the spec: the run of a FilterStage with the branch functions \<open>fs\<close> over the
  tasks \<open>tasks\<close>, when the branches finish in the order \<open>schedule\<close> (pairs of a branch index
  and a task index).
\<close>

definition filter_stage :: "('a \<Rightarrow> 'r) list \<Rightarrow> 'a list \<Rightarrow> (nat \<times> nat) list \<Rightarrow> ('a \<times> 'r list) list" where
  "filter_stage fs tasks schedule =
     emitted (merged (foldl (\<lambda>st ev. branch_done fs tasks ev st) filter_init schedule))"

section \<open>Invariants of the stages\<close>

text \<open>
  For the set \<open>S\<close> of the tasks finished so far and the result \<open>val i\<close> of each task: every
  task before \<open>nxt\<close> is finished and released, the buffer holds exactly the finished tasks
  from \<open>nxt\<close> on, and, once releasing is over, the task \<open>nxt\<close> itself is not finished.
\<close>

definition pre_inv :: "(nat \<Rightarrow> 'r) \<Rightarrow> nat \<Rightarrow> 'r ordered \<Rightarrow> nat set \<Rightarrow> bool" where
  "pre_inv val n s S \<longleftrightarrow>
     nxt s \<le> n \<and> S \<subseteq> {..<n} \<and> (\<forall>j<nxt s. j \<in> S) \<and> emitted s = map val [0..<nxt s]
     \<and> (\<forall>j. buffer s j = (if j \<in> S \<and> nxt s \<le> j then Some (val j) else None))"

definition ord_inv :: "(nat \<Rightarrow> 'r) \<Rightarrow> nat \<Rightarrow> 'r ordered \<Rightarrow> nat set \<Rightarrow> bool" where
  "ord_inv val n s S \<longleftrightarrow> pre_inv val n s S \<and> (nxt s < n \<longrightarrow> nxt s \<notin> S)"

text \<open>
  For the set \<open>P\<close> of the pairs of branch and task finished so far: the tasks that every
  one of the \<open>k\<close> branches has finished, and the invariant of the filter stage.
\<close>

definition all_done :: "nat \<Rightarrow> nat \<Rightarrow> (nat \<times> nat) set \<Rightarrow> nat set" where
  "all_done k n P = {i. i < n \<and> (\<forall>b<k. (b, i) \<in> P)}"

definition filter_inv ::
  "('a \<Rightarrow> 'r) list \<Rightarrow> 'a list \<Rightarrow> ('a, 'r) filter_state \<Rightarrow> (nat \<times> nat) set \<Rightarrow> bool" where
  "filter_inv fs tasks st P \<longleftrightarrow>
     (\<forall>i b. partials st i b = (if (b, i) \<in> P then Some ((fs ! b) (tasks ! i)) else None))
     \<and> ord_inv (\<lambda>i. (tasks ! i, map (\<lambda>f. f (tasks ! i)) fs)) (length tasks) (merged st)
          (all_done (length fs) (length tasks) P)"

section \<open>A concrete setting\<close>

text \<open>
  Collaborators for concrete runs: an image is the number of drawing calls made on it,
  every image has the shape \<open>480 \<times> 640 \<times> 3\<close>, and the display never fails. The second classifier
  always raises.
\<close>

definition plain_cv :: "nat cv" where
  "plain_cv = \<lparr>np_shape = (\<lambda>img. [480, 640, 3]), cv2_rectangle = (\<lambda>img r. Suc img),
     writeOSD = (\<lambda>img sz. Suc img), cv2_imshow = (\<lambda>img. None)\<rparr>"

definition one_face :: "nat classifier" where
  "one_face img minSize maxSize = Inr [[10, 20, 30, 40]]"

definition broken :: "nat classifier" where
  "broken img minSize maxSize = Inl CollaboratorError"

definition two_detectors :: "(nat classifier \<times> color) list" where
  "two_detectors = [(one_face, (0, 255, 0)), (broken, (255, 0, 0))]"

section \<open>Theorems\<close>

subsection \<open>The stage bodies\<close>

lemma append_rects_acc:
  "append_rects col rows acc = (acc @ fst (append_rects col rows []), snd (append_rects col rows []))"
proof (induction rows arbitrary: acc)
  case Nil
  then show ?case by simp
next
  case (Cons row rows)
  show ?case
  proof (cases "\<exists>a b c d. row = [a, b, c, d]")
    case True
    then obtain a b c d where r: "row = [a, b, c, d]" by blast
    show ?thesis
      using Cons.IH [of "acc @ [(a, b, c, d, col)]"] Cons.IH [of "[(a, b, c, d, col)]"]
      by (simp add: r)
  next
    case False
    then have "append_rects col (row # rows) acc = (acc, Some ValueError)" for acc
      by (auto split: list.splits)
    then show ?thesis by simp
  qed
qed

lemma draw_rects_missing:
  "images t = None \<Longrightarrow> draw_rects cv images t rs = (if rs = [] then Inr images else Inl KeyError)"
  by (cases rs) auto


lemma Postprocessor_missing:
  "images t = None \<Longrightarrow> Postprocessor_doTask cv images (Composite t rects) = Inl KeyError"
  by (simp add: Postprocessor_doTask_def draw_rects_missing)


lemma Detector_returns:
  "Detector_doTask shape images classifier col t =
     (if snd (Detector_try shape images classifier col t []) = None then [] else [''Error in detector !!!''],
      Inr (fst (Detector_try shape images classifier col t [])))"
  by (simp add: Detector_doTask_def split: prod.splits option.splits)

lemma Viewer_returns: "snd (Viewer_doTask cv images t) = Inr t"
  by (simp add: Viewer_doTask_def split: option.splits)

lemma sequence_sum_Inr: "sequence_sum (map Inr xs) = Inr xs"
  by (induction xs) auto

lemma detectors_merge:
  "filter_merge t (map (\<lambda>(classifier, col). snd (Detector_doTask shape images classifier col t)) dets)
     = Inr (Composite t (map (\<lambda>(classifier, col). fst (Detector_try shape images classifier col t [])) dets))"
proof -
  have "map (\<lambda>(classifier, col). snd (Detector_doTask shape images classifier col t)) dets
      = map Inr (map (\<lambda>(classifier, col). fst (Detector_try shape images classifier col t [])) dets)"
    by (simp add: Detector_returns case_prod_unfold)
  then show ?thesis
    by (simp only: filter_merge_def sequence_sum_Inr sum.case)
qed


lemma append_rects_well_formed:
  "fst (append_rects col rows []) =
     map (\<lambda>row. (row ! 0, row ! 1, row ! 2, row ! 3, col)) (takeWhile (\<lambda>row. length row = 4) rows)"
proof (induction rows)
  case Nil
  then show ?case by simp
next
  case (Cons row rows)
  show ?case
  proof (cases "\<exists>a b c d. row = [a, b, c, d]")
    case True
    then obtain a b c d where r: "row = [a, b, c, d]" by blast
    show ?thesis
      using Cons.IH append_rects_acc [of col rows "[(a, b, c, d, col)]"]
      by (simp add: r)
  next
    case False
    then have n: "length row \<noteq> 4"
      by (auto simp: length_Suc_conv numeral_eq_Suc)
    from False have "append_rects col (row # rows) [] = ([], Some ValueError)"
      by (auto split: list.splits)
    with n show ?thesis by simp
  qed
qed

subsection \<open>The capture loop\<close>

lemma capture_loop_keys:
  "capture_loop endt now feed = Some as \<Longrightarrow> \<exists>n. table_keys as = map fst (take n feed)"
proof (induction feed arbitrary: now as)
  case Nil
  then show ?case by (simp split: if_splits)
next
  case (Cons x feed)
  obtain t img where x: "x = (t, img)" by (cases x)
  show ?case
  proof (cases "endt > now")
    case True
    with Cons.prems x obtain as' where a: "capture_loop endt t feed = Some as'"
      "as = Table_set t img # Iproc_put (Some t) # as'"
      by auto
    from Cons.IH [OF a(1)] obtain n where "table_keys as' = map fst (take n feed)" by blast
    then have "table_keys as = map fst (take (Suc n) (x # feed))"
      by (simp add: a(2) x)
    then show ?thesis by blast
  next
    case False
    with Cons.prems x have "as = []" by simp
    then have "table_keys as = map fst (take 0 (x # feed))" by simp
    then show ?thesis by blast
  qed
qed

lemma overwrites_iff:
  "overwrites as images \<longleftrightarrow> \<not> distinct (table_keys as) \<or> set (table_keys as) \<inter> dom images \<noteq> {}"
proof (induction as images rule: overwrites.induct)
  case (2 t img as images)
  have "images t \<noteq> None \<longleftrightarrow> t \<in> dom images" by auto
  with "2.IH" show ?case
    by (simp only: overwrites.simps table_keys.simps distinct.simps list.set dom_fun_upd option.simps if_False)
      blast
qed simp_all

subsection \<open>The latency floor\<close>

text \<open>
  C4. For a task \<open>(tstamp, results)\<close> the Staller computes the floor (two seconds) minus the
  age \<open>now - tstamp\<close>. When that duration is positive it sleeps exactly that long, otherwise it
  does not sleep at all; in both cases the task is released no earlier than the floor after
  its timestamp.
\<close>

theorem Staller_latency_floor:
  "Staller_doTask now (Composite tstamp results) =
     Inr (if floor_age - (now - tstamp) > 0 then Some (floor_age - (now - tstamp)) else None,
          tstamp)
   \<and> (\<exists>slept out. Staller_doTask now (Composite tstamp results) = Inr (slept, out)
        \<and> release_time now slept \<ge> tstamp + floor_age
        \<and> (floor_age - (now - tstamp) > 0 \<longrightarrow> release_time now slept = tstamp + floor_age)
        \<and> (floor_age - (now - tstamp) \<le> 0 \<longrightarrow> slept = None \<and> release_time now slept = now))"
  by (simp add: Staller_doTask_def release_time_def Let_def)

theorem Staller_latency_floor_witness:
  "Staller_doTask 1500000 (Composite 0 [0::int]) = Inr (Some 500000, 0)
   \<and> Staller_doTask 2500000 (Composite 0 [0::int]) = Inr (None, 0)"
  using Staller_latency_floor [of 1500000 0 "[0::int]"]
        Staller_latency_floor [of 2500000 0 "[0::int]"]
  by (simp add: floor_age_def)

subsection \<open>Ordered stages and filter stages\<close>

lemma release_inv: "pre_inv val n s S \<Longrightarrow> ord_inv val n (release n s) S"
proof (induction n s rule: release.induct)
  case (1 n s)
  show ?case
  proof (cases "nxt s < n \<and> nxt s \<in> S")
    case True
    with "1.prems" have b: "buffer s (nxt s) = Some (val (nxt s))"
      by (simp add: pre_inv_def)
    let ?s = "s\<lparr>buffer := (buffer s)(nxt s := None), nxt := Suc (nxt s),
                emitted := emitted s @ [val (nxt s)]\<rparr>"
    have "pre_inv val n ?s S"
      using "1.prems" True by (auto simp: pre_inv_def less_Suc_eq)
    with "1.IH" [of "val (nxt s)"] True b have "ord_inv val n (release n ?s) S"
      by simp
    moreover have "release n s = release n ?s"
      using True b by (subst release.simps) simp
    ultimately show ?thesis by simp
  next
    case False
    with "1.prems" have "release n s = s"
      by (subst release.simps) (auto simp: pre_inv_def)
    with False "1.prems" show ?thesis
      by (auto simp: ord_inv_def)
  qed
qed

lemma complete_inv:
  assumes "ord_inv val n s S" "i < n" "i \<notin> S"
  shows "ord_inv val n (complete n i (val i) s) (insert i S)"
proof -
  from assms have "nxt s \<le> i"
    by (metis ord_inv_def pre_inv_def not_le_imp_less)
  with assms have "pre_inv val n (s\<lparr>buffer := (buffer s)(i \<mapsto> val i)\<rparr>) (insert i S)"
    by (auto simp: ord_inv_def pre_inv_def)
  from release_inv [OF this] assms(2) show ?thesis
    by (simp add: complete_def)
qed

lemma ord_inv_init: "ord_inv val n ordered_init {}"
  by (simp add: ord_inv_def pre_inv_def ordered_init_def)

lemma ord_inv_all: "ord_inv val n s {..<n} \<Longrightarrow> emitted s = map val [0..<n]"
  by (cases "nxt s < n") (auto simp: ord_inv_def pre_inv_def)

lemma foldl_complete_inv:
  "ord_inv val n s S \<Longrightarrow> distinct sch \<Longrightarrow> set sch \<inter> S = {} \<Longrightarrow> set sch \<subseteq> {..<n} \<Longrightarrow>
   ord_inv val n (foldl (\<lambda>s i. complete n i (val i) s) s sch) (S \<union> set sch)"
proof (induction sch arbitrary: s S)
  case Nil
  then show ?case by simp
next
  case (Cons i sch)
  from Cons.prems have "ord_inv val n (complete n i (val i) s) (insert i S)"
    by (intro complete_inv) auto
  from Cons.IH [OF this] Cons.prems show ?case by simp
qed

lemma map_nth_apply: "map (\<lambda>i. f (xs ! i)) [0..<length xs] = map f xs"
  by (rule nth_equalityI) auto

lemma those_map_Some:
  "those (map g xs) = (if \<forall>x\<in>set xs. g x \<noteq> None then Some (map (\<lambda>x. the (g x)) xs) else None)"
  by (induction xs) (auto split: option.splits)

lemma branch_done_inv:
  assumes inv: "filter_inv fs tasks st P"
    and b: "b < length fs" and i: "i < length tasks" and new: "(b, i) \<notin> P"
  shows "filter_inv fs tasks (branch_done fs tasks (b, i) st) (insert (b, i) P)"
proof -
  let ?k = "length fs" and ?n = "length tasks"
  let ?val = "\<lambda>i. (tasks ! i, map (\<lambda>f. f (tasks ! i)) fs)"
  let ?P = "insert (b, i) P"
  define row where "row = (partials st i)(b \<mapsto> (fs ! b) (tasks ! i))"
  define st1 where "st1 = st\<lparr>partials := (partials st)(i := row)\<rparr>"
  from inv have p: "\<And>i b. partials st i b = (if (b, i) \<in> P then Some ((fs ! b) (tasks ! i)) else None)"
    and o: "ord_inv ?val ?n (merged st) (all_done ?k ?n P)"
    by (simp_all add: filter_inv_def)
  have row: "row b' = (if (b', i) \<in> ?P then Some ((fs ! b') (tasks ! i)) else None)" for b'
    by (simp add: row_def p)
  have p1: "partials st1 i' b' = (if (b', i') \<in> ?P then Some ((fs ! b') (tasks ! i')) else None)" for i' b'
    by (simp add: st1_def row_def p)
  have m1: "merged st1 = merged st"
    by (simp add: st1_def)
  have step: "branch_done fs tasks (b, i) st =
      (case those (map row [0..<?k]) of
         None \<Rightarrow> st1
       | Some rs \<Rightarrow> st1\<lparr>merged := complete ?n i (tasks ! i, rs) (merged st1)\<rparr>)"
    unfolding branch_done_def Let_def row_def st1_def using b i by simp
  from b new have nd: "i \<notin> all_done ?k ?n P"
    by (auto simp: all_done_def)
  show ?thesis
  proof (cases "\<forall>b'<?k. (b', i) \<in> ?P")
    case True
    then have "those (map row [0..<?k]) = Some (map (\<lambda>b'. (fs ! b') (tasks ! i)) [0..<?k])"
      by (simp add: those_map_Some row)
    moreover have "map (\<lambda>b'. (fs ! b') (tasks ! i)) [0..<?k] = map (\<lambda>f. f (tasks ! i)) fs"
      by (rule nth_equalityI) auto
    ultimately have st: "branch_done fs tasks (b, i) st
        = st1\<lparr>merged := complete ?n i (?val i) (merged st)\<rparr>"
      by (simp add: step m1)
    from True i have "all_done ?k ?n ?P = insert i (all_done ?k ?n P)"
      by (auto simp: all_done_def)
    with complete_inv [OF o i nd] p1 show ?thesis
      by (simp add: st filter_inv_def)
  next
    case False
    then have "those (map row [0..<?k]) = None"
      by (auto simp: those_map_Some row)
    then have st: "branch_done fs tasks (b, i) st = st1"
      by (simp add: step)
    from False have "all_done ?k ?n ?P = all_done ?k ?n P"
      by (auto simp: all_done_def)
    with o p1 m1 show ?thesis
      by (simp add: st filter_inv_def)
  qed
qed

lemma foldl_branch_done_inv:
  "filter_inv fs tasks st P \<Longrightarrow> distinct sch \<Longrightarrow> set sch \<inter> P = {} \<Longrightarrow>
   set sch \<subseteq> {..<length fs} \<times> {..<length tasks} \<Longrightarrow>
   filter_inv fs tasks (foldl (\<lambda>st ev. branch_done fs tasks ev st) st sch) (P \<union> set sch)"
proof (induction sch arbitrary: st P)
  case Nil
  then show ?case by simp
next
  case (Cons ev sch)
  obtain b i where ev: "ev = (b, i)" by (cases ev)
  from Cons.prems have "filter_inv fs tasks (branch_done fs tasks (b, i) st) (insert (b, i) P)"
    by (intro branch_done_inv) (auto simp: ev)
  from Cons.IH [OF this] Cons.prems show ?case by (simp add: ev)
qed

subsection \<open>The program as three processes\<close>

lemma tokens_of_append [simp]: "tokens_of (xs @ ys) = tokens_of xs @ tokens_of ys"
  by (induction xs rule: tokens_of.induct) auto

lemma tokens_of_map_Some [simp]: "tokens_of (map Some xs) = xs"
  by (induction xs) auto









lemma flags_tail [simp]:
  "started [Iproc_put None, Dealloc_put None, Dealloc_wait]"
  "\<not> stop1 [Iproc_put None, Dealloc_put None, Dealloc_wait]"
  "\<not> stop2 [Iproc_put None, Dealloc_put None, Dealloc_wait]"
  "started [Dealloc_put None, Dealloc_wait]"
  "stop1 [Dealloc_put None, Dealloc_wait]"
  "\<not> stop2 [Dealloc_put None, Dealloc_wait]"
  "started [Dealloc_wait]" "stop1 [Dealloc_wait]" "stop2 [Dealloc_wait]"
  "started []" "stop1 []" "stop2 []"
  by (simp_all add: started_def stop1_def stop2_def)






















lemmas eval_defs = main_step_def iproc_step_def dealloc_step_def start_def pipe_iproc_task_def
  filter_merge_def Detector_doTask_def Detector_try_def Postprocessor_doTask_def Viewer_doTask_def
  Staller_doTask_def plain_cv_def one_face_def broken_def two_detectors_def Let_def

subsection \<open>The claims about the stage bodies and the capture loop\<close>

text \<open>
  C6. A lookup miss is not handled softly by every stage body that reads
  \<^verbatim>\<open>images[tstamp]\<close>. The Detector and the Viewer catch the miss; the Postprocessor
  does not: when the timestamp is absent from the table, \<^verbatim>\<open>Postprocessor.doTask\<close> ends with
  \<^verbatim>\<open>KeyError\<close>, whatever the rectangles are.
\<close>

theorem Postprocessor_lookup_miss:
  "Postprocessor_doTask cv (images(tstamp := None)) (Composite tstamp rects) = Inl KeyError"
  by (simp add: Postprocessor_missing)

text \<open>
  C7. A failure inside a task function is not caught at the boundary of the task in every
  stage. In the Detector and in the Viewer it is: the function prints one line and still
  returns, the Detector the empty list when the lookup or the classifier fails, the Viewer
  the timestamp. In the Postprocessor it is not: the exception leaves \<^verbatim>\<open>doTask\<close>, here from the
  lookup inside the drawing loop, and there is no result for the task.
\<close>

theorem Postprocessor_failure_propagates:
  "Postprocessor_doTask plain_cv Map.empty (Composite 3 [[(10, 20, 30, 40, (0, 255, 0))]]) = Inl KeyError
   \<and> Detector_doTask (np_shape plain_cv) Map.empty one_face (0, 255, 0) 3
       = ([''Error in detector !!!''], Inr [])
   \<and> Detector_doTask (np_shape plain_cv) [3 \<mapsto> 0] broken (0, 255, 0) 3
       = ([''Error in detector !!!''], Inr [])
   \<and> Viewer_doTask plain_cv Map.empty 3 = ([''Error in viewer !!!''], Inr 3)"
  by (simp add: Postprocessor_doTask_def Detector_doTask_def Detector_try_def Viewer_doTask_def
      broken_def plain_cv_def)

text \<open>
  C8, as stated, fails: with the clock readings \<open>5, 5, 20\<close> the second assignment
  \<^verbatim>\<open>images[now] = image_in\<close> does not fail; it replaces the frame stored under \<open>5\<close>, and the
  timestamp \<open>5\<close> is put on the pipeline twice.
\<close>

theorem capture_loop_overwrites:
  "capture_loop 10 0 [(5, 1::nat), (5, 2), (20, 3)]
      = Some [Table_set 5 1, Iproc_put (Some 5), Table_set 5 2, Iproc_put (Some 5),
              Table_set 20 3, Iproc_put (Some 20)]
   \<and> table_of [Table_set 5 (1::nat), Iproc_put (Some 5), Table_set 5 2] Map.empty = [5 \<mapsto> 2]
   \<and> overwrites [Table_set 5 (1::nat), Iproc_put (Some 5), Table_set 5 2, Iproc_put (Some 5),
              Table_set 20 3, Iproc_put (Some 20)] Map.empty"
  by simp

text \<open>
  C8, amended. An assignment to the table never fails and replaces the frame of a key that
  is present. The capture loop assigns one key per reading of the clock, so an assignment
  overwrites an entry exactly when a reading repeats: when the readings are pairwise
  distinct, every timestamp is inserted exactly once and nothing is overwritten.
\<close>

theorem capture_inserts_once_when_readings_distinct:
  "capture_loop endt now feed = Some as \<Longrightarrow>
     table_of [Table_set t img] images = images(t \<mapsto> img)
     \<and> (overwrites as Map.empty \<longleftrightarrow> \<not> distinct (table_keys as))
     \<and> (distinct (map fst feed) \<longrightarrow> distinct (table_keys as) \<and> \<not> overwrites as Map.empty)"
proof -
  assume c: "capture_loop endt now feed = Some as"
  from capture_loop_keys [OF c] obtain n where n: "table_keys as = map fst (take n feed)" by blast
  have "distinct (map fst feed) \<Longrightarrow> distinct (table_keys as)"
    by (simp add: n take_map [symmetric] distinct_take del: take_map)
  then show ?thesis
    by (auto simp: overwrites_iff)
qed

theorem capture_inserts_once_when_readings_distinct_witness:
  "capture_loop 10 0 [(5, 1::nat), (20, 2)]
      = Some [Table_set 5 1, Iproc_put (Some 5), Table_set 20 2, Iproc_put (Some 20)]
   \<and> distinct (map fst [(5::int, 1::nat), (20, 2)])
   \<and> \<not> overwrites [Table_set 5 (1::nat), Iproc_put (Some 5), Table_set 20 2, Iproc_put (Some 20)] Map.empty"
proof -
  have c: "capture_loop 10 0 [(5, 1::nat), (20, 2)]
      = Some [Table_set 5 1, Iproc_put (Some 5), Table_set 20 2, Iproc_put (Some 20)]"
    by simp
  from capture_inserts_once_when_readings_distinct [OF c] show ?thesis
    using c by simp
qed

text \<open>
  C9, as stated, fails: the Staller receives the pair \<open>(5, [8])\<close> and forwards \<open>5\<close>; two
  different tasks are forwarded as the same value.
\<close>

theorem Staller_drops_results:
  "Staller_doTask 0 (Composite 5 [8::int]) = Inr (Some 2000005, 5)
   \<and> Staller_doTask 0 (Composite 5 [9::int]) = Inr (Some 2000005, 5)
   \<and> Composite 5 [8::int] \<noteq> Composite 5 [9] \<and> Token 5 \<noteq> Composite 5 [8::int]"
  by (simp add: Staller_doTask_def Let_def floor_age_def)

text \<open>
  C9, amended. The Staller forwards the timestamp of the task it received, a projection of
  the pair \<open>(tstamp, results)\<close>: the list of results is dropped, and neither the clock nor
  the time slept changes the value forwarded.
\<close>

theorem Staller_forwards_token:
  "map_sum id snd (Staller_doTask now (Composite tstamp results)) = Inr tstamp"
  by (simp add: Staller_doTask_def Let_def)

text \<open>
  C10. An error inside the Detector does remove a timestamp from the flow when the error is
  a lookup miss. The Detector catches the \<^verbatim>\<open>KeyError\<close> and returns the empty list, but the
  Postprocessor, which comes next and looks the same key up without a handler, raises: the
  chain ends with \<^verbatim>\<open>KeyError\<close> and the timestamp reaches neither the Staller nor the results
  that the Deallocator reads. In the program this happens when the clock gives the same
  reading twice (\<open>6, 6, 40\<close>) and the first frame is deleted before the second copy of the
  timestamp passes the chain: the pipeline fails with the second \<open>6\<close> taken from its queue
  and nothing among its results.
\<close>

theorem lookup_miss_removes_token:
  "Detector_doTask (np_shape cv) (images(t := None)) classifier col t
       = ([''Error in detector !!!''], Inr [])
   \<and> pipe_iproc_task cv dets rd (images(t := None)) t = Inl KeyError
   \<and> main 10 0 [(6, 1::nat), (6, 2), (40, 3)]
       = Some [Dealloc_put (Some True), Table_set 6 1, Iproc_put (Some 6), Table_set 6 2,
               Iproc_put (Some 6), Table_set 40 3, Iproc_put (Some 40), Iproc_put None,
               Dealloc_put None, Dealloc_wait]
   \<and> map_option (\<lambda>s. (st_iproc s, st_deleted s, st_queue s, st_results s))
        (run plain_cv two_detectors [Main, Main, Main, Main, Main, Dealloc, Iproc 10, Dealloc, Iproc 20]
           (start [Dealloc_put (Some True), Table_set 6 1, Iproc_put (Some 6), Table_set 6 2,
               Iproc_put (Some 6), Table_set 40 3, Iproc_put (Some 40), Iproc_put None,
               Dealloc_put None, Dealloc_wait]))
       = Some (Failed KeyError, [6], [], [])"
proof -
  have 1: "Detector_doTask (np_shape cv) (images(t := None)) classifier col t
       = ([''Error in detector !!!''], Inr [])"
    by (simp add: Detector_doTask_def Detector_try_def)
  have "Postprocessor_doTask cv (images(t := None))
          (Composite t (map (\<lambda>(classifier, col).
             fst (Detector_try (np_shape cv) (images(t := None)) classifier col t [])) dets))
        = Inl KeyError"
    by (simp add: Postprocessor_missing)
  then have 2: "pipe_iproc_task cv dets rd (images(t := None)) t = Inl KeyError"
    by (simp add: pipe_iproc_task_def detectors_merge)
  have 3: "main 10 0 [(6, 1::nat), (6, 2), (40, 3)]
       = Some [Dealloc_put (Some True), Table_set 6 1, Iproc_put (Some 6), Table_set 6 2,
               Iproc_put (Some 6), Table_set 40 3, Iproc_put (Some 40), Iproc_put None,
               Dealloc_put None, Dealloc_wait]"
    by (simp add: main_def)
  have 4: "map_option (\<lambda>s. (st_iproc s, st_deleted s, st_queue s, st_results s))
        (run plain_cv two_detectors [Main, Main, Main, Main, Main, Dealloc, Iproc 10, Dealloc, Iproc 20]
           (start [Dealloc_put (Some True), Table_set 6 1, Iproc_put (Some 6), Table_set 6 2,
               Iproc_put (Some 6), Table_set 40 3, Iproc_put (Some 40), Iproc_put None,
               Dealloc_put None, Dealloc_wait]))
       = Some (Failed KeyError, [6], [], [])"
    by (simp add: eval_defs)
  from 1 2 3 4 show ?thesis by blast
qed

subsection \<open>The claims about ordering and merging\<close>

text \<open>
  C2. An Ordered stage releases, for the tasks submitted, the results of these tasks in the
  order of submission, whatever the order in which the workers finish them: for every
  schedule in which each task finishes exactly once, what the stage has released is the
  list of the results in the order of the tasks.
\<close>

theorem ordered_stage_keeps_order:
  assumes "distinct schedule" "set schedule = {..<length tasks}"
  shows "ordered_stage f tasks schedule = map f tasks"
proof -
  let ?n = "length tasks"
  let ?val = "\<lambda>i. f (tasks ! i)"
  from foldl_complete_inv [of ?val ?n ordered_init "{}" schedule] assms
  have "ord_inv ?val ?n (foldl (\<lambda>s i. complete ?n i (?val i) s) ordered_init schedule) {..<?n}"
    by (simp add: ord_inv_init)
  from ord_inv_all [OF this] show ?thesis
    by (simp add: ordered_stage_def map_nth_apply)
qed

theorem ordered_stage_keeps_order_witness:
  "distinct [2, 0, 1::nat] \<and> set [2, 0, 1::nat] = {..<length [10, 20, 30::int]}
   \<and> ordered_stage (\<lambda>t. snd (Viewer_doTask plain_cv Map.empty t)) [10, 20, 30] [2, 0, 1]
       = [Inr 10, Inr 20, Inr 30]"
proof -
  have d: "distinct [2, 0, 1::nat]" by simp
  have s: "set [2, 0, 1::nat] = {..<length [10, 20, 30::int]}" by auto
  from ordered_stage_keeps_order [OF d s, of "\<lambda>t. snd (Viewer_doTask plain_cv Map.empty t)"] d s
  show ?thesis by (simp add: Viewer_returns)
qed

text \<open>
  C3. A FilterStage with at least one branch releases, for every task, exactly one merged
  result, the task paired with the list that holds one partial result per branch, and
  releases these in the order of the tasks, whatever the order in which the branches finish
  the tasks.
\<close>

theorem filter_stage_merges_in_order:
  assumes "fs \<noteq> []" "distinct schedule" "set schedule = {..<length fs} \<times> {..<length tasks}"
  shows "filter_stage fs tasks schedule = map (\<lambda>t. (t, map (\<lambda>f. f t) fs)) tasks"
proof -
  let ?k = "length fs" and ?n = "length tasks"
  let ?val = "\<lambda>i. (tasks ! i, map (\<lambda>f. f (tasks ! i)) fs)"
  from assms(1) have "all_done ?k ?n {} = {}"
    by (auto simp: all_done_def)
  then have "filter_inv fs tasks filter_init {}"
    by (simp add: filter_inv_def filter_init_def ord_inv_init)
  from foldl_branch_done_inv [OF this assms(2)] assms(3)
  have "filter_inv fs tasks (foldl (\<lambda>st ev. branch_done fs tasks ev st) filter_init schedule)
          ({..<?k} \<times> {..<?n})"
    by simp
  moreover have "all_done ?k ?n ({..<?k} \<times> {..<?n}) = {..<?n}"
    by (auto simp: all_done_def)
  ultimately have "ord_inv ?val ?n
      (merged (foldl (\<lambda>st ev. branch_done fs tasks ev st) filter_init schedule)) {..<?n}"
    by (simp add: filter_inv_def)
  from ord_inv_all [OF this] show ?thesis
    by (simp add: filter_stage_def map_nth_apply [of "\<lambda>t. (t, map (\<lambda>f. f t) fs)"])
qed

theorem filter_stage_merges_in_order_witness:
  "[(\<lambda>t. fst (Detector_try (np_shape plain_cv) [7 \<mapsto> 0, 8 \<mapsto> 0] one_face (0, 255, 0) t [])),
    (\<lambda>t. fst (Detector_try (np_shape plain_cv) [7 \<mapsto> 0, 8 \<mapsto> 0] broken (255, 0, 0) t []))] \<noteq> []
   \<and> distinct [(1, 1), (0, 1), (1, 0), (0::nat, 0::nat)]
   \<and> filter_stage
        [(\<lambda>t. fst (Detector_try (np_shape plain_cv) [7 \<mapsto> 0, 8 \<mapsto> 0] one_face (0, 255, 0) t [])),
         (\<lambda>t. fst (Detector_try (np_shape plain_cv) [7 \<mapsto> 0, 8 \<mapsto> 0] broken (255, 0, 0) t []))]
        [7, 8] [(1, 1), (0, 1), (1, 0), (0, 0)]
      = [(7, [[(10, 20, 30, 40, (0, 255, 0))], []]), (8, [[(10, 20, 30, 40, (0, 255, 0))], []])]"
proof -
  let ?fs = "[(\<lambda>t. fst (Detector_try (np_shape plain_cv) [7 \<mapsto> 0, 8 \<mapsto> 0] one_face (0, 255, 0) t [])),
    (\<lambda>t. fst (Detector_try (np_shape plain_cv) [7 \<mapsto> 0, 8 \<mapsto> 0] broken (255, 0, 0) t []))]"
  have n: "?fs \<noteq> []" by simp
  have d: "distinct [(1, 1), (0, 1), (1, 0), (0::nat, 0::nat)]" by simp
  have s: "set [(1, 1), (0, 1), (1, 0), (0::nat, 0::nat)] = {..<length ?fs} \<times> {..<length [7, 8::int]}"
    by (auto simp: less_Suc_eq)
  from filter_stage_merges_in_order [OF n d s] d
  show ?thesis by (simp add: Detector_try_def one_face_def broken_def)
qed

subsection \<open>The claims about the whole run\<close>







end
